theory Spec2Isabelle
  imports Main
begin

section \<open>Frame-label aggregation and segment extraction (score\_feats\_extract.py)\<close>

text \<open>
  The module holds one class, \<open>FrameLabelAggregate\<close>, with two operations:
  \<open>forward\<close> (windowed aggregation of a padded batch of label sequences) and
  \<open>get_segments\<close> (run-length segmentation of one item's duration, score and tempo
  streams). Label values are integer codes and are modelled as \<open>int\<close>; sizes, indices
  and valid lengths are naturals. Every exception the Python raises is a value of
  \<open>error\<close>, and a function that can raise returns \<open>error + 'a\<close>.
\<close>

datatype error = UnboundLocalError | ZeroDivisionError | IndexError | RuntimeError

subsection \<open>Tensor primitives\<close>

text \<open>
  Python slicing \<open>xs[lo:hi]\<close> with non-negative bounds: the bounds are clamped to the
  length of the sequence, so a slice never raises and may be shorter than \<open>hi - lo\<close>.
\<close>

definition slice :: "'a list \<Rightarrow> nat \<Rightarrow> nat \<Rightarrow> 'a list" where
  "slice xs lo hi = take (hi - lo) (drop lo xs)"

text \<open>
  Modelled from the spec: the reduction \<open>Tensor.mode()\<close> is a primitive of the tensor
  library and is not under src/. The spec defines the mode as the most frequent value of a
  finite collection, ties broken by the lowest numeric value among the tied candidates.
  The reduction over an empty dimension raises (\<open>None\<close> here, turned into
  \<open>IndexError\<close> by the callers).
\<close>

definition most_frequent :: "int list \<Rightarrow> int list" where
  "most_frequent xs = [x \<leftarrow> xs. \<forall>y \<in> set xs. count_list xs y \<le> count_list xs x]"

definition mode :: "int list \<Rightarrow> int option" where
  "mode xs = (if xs = [] then None else Some (Min (set (most_frequent xs))))"

subsection \<open>get\_segments\<close>

text \<open>
  The two boundary loops of \<open>get_segments\<close> (lines 130--132 over the durations, lines
  137--139 over the score) have the same body: \<open>for i in range(n): if xs[seq[-1]] != xs[i]:
  seq.append(i)\<close>. \<open>walk_loop xs is seq\<close> runs that body for the indices \<open>is\<close> on the
  list \<open>seq\<close> built so far; \<open>seq[-1]\<close> is \<open>last seq\<close> (the list is never empty), and a
  tensor read beyond the tensor's size raises \<open>IndexError\<close>.
\<close>

fun walk_loop :: "int list \<Rightarrow> nat list \<Rightarrow> nat list \<Rightarrow> error + nat list" where
  "walk_loop xs [] seq = Inr seq"
| "walk_loop xs (i # is) seq =
     (if last seq < length xs \<and> i < length xs
      then walk_loop xs is (if xs ! last seq \<noteq> xs ! i then seq @ [i] else seq)
      else Inl IndexError)"

text \<open>
  Lines 129--142: the duration walk from \<open>seq = [0]\<close>, the sentinel
  \<open>durations_lengths\<close>, a fresh \<open>0\<close>, the score walk, the sentinel \<open>score_lengths\<close>,
  then \<open>list(set(seq))\<close> sorted ascending.
\<close>

definition boundaries :: "int list \<Rightarrow> nat \<Rightarrow> int list \<Rightarrow> nat \<Rightarrow> error + nat list" where
  "boundaries durations durations_lengths score score_lengths =
     (case walk_loop durations [0..<durations_lengths] [0] of
        Inl e \<Rightarrow> Inl e
      | Inr seq1 \<Rightarrow>
          (case walk_loop score [0..<score_lengths] (seq1 @ [durations_lengths] @ [0]) of
             Inl e \<Rightarrow> Inl e
           | Inr seq2 \<Rightarrow> Inr (sort (remdups (seq2 @ [score_lengths])))))"

text \<open>
  Lines 148--155: for each \<open>i\<close> the modes of the three streams on \<open>[seq[i], seq[i+1])\<close>
  are appended to the three result lists; the mode of an empty slice raises.
\<close>

fun seg_loop ::
  "int list \<Rightarrow> int list \<Rightarrow> int list \<Rightarrow> nat list \<Rightarrow> nat list \<Rightarrow>
   int list \<times> int list \<times> int list \<Rightarrow> error + (int list \<times> int list \<times> int list)" where
  "seg_loop durations score tempo seq [] acc = Inr acc"
| "seg_loop durations score tempo seq (i # is) (seg_duartion, seg_score, seg_tempo) =
     (let l = seq ! i; r = seq ! (i + 1) in
      case mode (slice durations l r) of
        None \<Rightarrow> Inl IndexError
      | Some tmp_duartion \<Rightarrow>
          (case mode (slice score l r) of
             None \<Rightarrow> Inl IndexError
           | Some tmp_score \<Rightarrow>
               (case mode (slice tempo l r) of
                  None \<Rightarrow> Inl IndexError
                | Some tmp_tempo \<Rightarrow>
                    seg_loop durations score tempo seq is
                      (seg_duartion @ [tmp_duartion], seg_score @ [tmp_score],
                       seg_tempo @ [tmp_tempo]))))"

type_synonym segments = "int list \<times> nat \<times> int list \<times> nat \<times> int list \<times> nat"

text \<open>
  \<open>get_segments\<close> returns the 6-tuple \<open>(seg_duartion, lengths, seg_score, lengths,
  seg_tempo, lengths)\<close>. The parameter \<open>tempo_lengths\<close> is received and never read.
\<close>

definition get_segments ::
  "int list \<Rightarrow> nat \<Rightarrow> int list \<Rightarrow> nat \<Rightarrow> int list \<Rightarrow> nat \<Rightarrow> error + segments" where
  "get_segments durations durations_lengths score score_lengths tempo tempo_lengths =
     (case boundaries durations durations_lengths score score_lengths of
        Inl e \<Rightarrow> Inl e
      | Inr seq \<Rightarrow>
          (let lengths = length seq - 1 in
           case seg_loop durations score tempo seq [0..<lengths] ([], [], []) of
             Inl e \<Rightarrow> Inl e
           | Inr (seg_duartion, seg_score, seg_tempo) \<Rightarrow>
               Inr (seg_duartion, lengths, seg_score, lengths, seg_tempo, lengths)))"

subsection \<open>forward\<close>

text \<open>
  The constructor stores its seven arguments; \<open>forward\<close> reads \<open>win_length\<close>,
  \<open>hop_length\<close> and \<open>center\<close>.
\<close>

record FrameLabelAggregate =
  fs :: int
  n_fft :: nat
  win_length :: nat
  hop_length :: nat
  window :: string
  center :: bool
  ftype :: string

text \<open>
  A tensor of three dimensions \<open>(Batch, Nsamples, Label_dim)\<close>: its three sizes
  (\<open>input.size(0)\<close>, \<open>input.size(1)\<close>, \<open>input.size(2)\<close>) and its elements as nested
  lists. The sizes are fields of their own because a tensor with \<open>Nsamples = 0\<close> still has
  a label dimension.
\<close>

record tensor3 =
  size0 :: nat
  size1 :: nat
  size2 :: nat
  elems :: "int list list list"

definition wf_tensor3 :: "tensor3 \<Rightarrow> bool" where
  "wf_tensor3 t \<longleftrightarrow>
     length (elems t) = size0 t \<and>
     list_all (\<lambda>item. length item = size1 t \<and> list_all (\<lambda>v. length v = size2 t) item) (elems t)"

text \<open>
  The slice assignment \<open>xs[lo:hi] = vs\<close> along the time axis. The tensor library demands
  that \<open>vs\<close> has the shape of the slice; both assignments of \<open>forward\<close> meet that demand
  (lemma \<open>center_padding_shapes\<close> below).
\<close>

definition assign_slice :: "'a list \<Rightarrow> nat \<Rightarrow> nat \<Rightarrow> 'a list \<Rightarrow> 'a list" where
  "assign_slice xs lo hi vs = take lo xs @ vs @ drop hi xs"

text \<open>
  Step 1 (lines 90--96) on one batch item: \<open>pad\<close> zero rows on both ends of the time
  axis, then the first \<open>pad\<close> rows are overwritten by rows \<open>pad..2*pad\<close>, and the last
  \<open>pad\<close> rows by the \<open>pad\<close> rows before them. \<open>max_length\<close> is the padded length
  \<open>input.size(1) + 2 * pad\<close>.
\<close>

definition center_padding :: "nat \<Rightarrow> nat \<Rightarrow> nat \<Rightarrow> int list list \<Rightarrow> int list list" where
  "center_padding pad max_length label_dim item =
     (let input0 = replicate pad (replicate label_dim 0) @ item @ replicate pad (replicate label_dim 0);
          input1 = assign_slice input0 0 pad (slice input0 pad (2 * pad));
          input2 = assign_slice input1 (max_length - pad) max_length
                     (slice input1 (max_length - 2 * pad) (max_length - pad))
      in input2)"

text \<open>
  Step 2 (lines 100--103): \<open>as_strided\<close> reads the flat, row-major storage of the padded
  tensor: element \<open>[b, f, w, d]\<close> of the view is the storage cell
  \<open>b * s0 + f * s1 + w * s2 + d * s3\<close>. A negative size, or a view that reaches beyond the
  storage, raises \<open>RuntimeError\<close>.
\<close>

definition as_strided ::
  "int list \<Rightarrow> nat \<times> int \<times> nat \<times> nat \<Rightarrow> nat \<times> nat \<times> nat \<times> nat \<Rightarrow>
   error + int list list list list" where
  "as_strided storage sizes strides =
     (case (sizes, strides) of ((n0, n1, n2, n3), (s0, s1, s2, s3)) \<Rightarrow>
        if n1 < 0 then Inl RuntimeError
        else if n0 * nat n1 * n2 * n3 \<noteq> 0 \<and>
                length storage < 1 + (n0 - 1) * s0 + (nat n1 - 1) * s1 + (n2 - 1) * s2 + (n3 - 1) * s3
        then Inl RuntimeError
        else Inr (map (\<lambda>b. map (\<lambda>f. map (\<lambda>w. map (\<lambda>d.
                    storage ! (b * s0 + f * s1 + w * s2 + d * s3))
                  [0..<n3]) [0..<n2]) [0..<nat n1]) [0..<n0]))"

text \<open>
  Step 3 (line 107): \<open>output.sum(dim=2)\<close> adds up, for every batch item, frame and label
  index \<open>d\<close>, the \<open>win_length\<close> entries of the view along its third axis; \<open>.mode(dim=-1)\<close>
  then reduces the remaining last axis (of size \<open>label_dim\<close>) to its mode. A reduction over
  an axis of size 0 raises \<open>IndexError\<close>.
\<close>

definition sum_dim2 :: "nat \<Rightarrow> int list list list list \<Rightarrow> int list list list" where
  "sum_dim2 label_dim view =
     map (map (\<lambda>frame. map (\<lambda>d. sum_list (map (\<lambda>row. row ! d) frame)) [0..<label_dim])) view"

fun mode_each :: "int list list \<Rightarrow> error + int list" where
  "mode_each [] = Inr []"
| "mode_each (v # vs) =
     (case mode v of
        None \<Rightarrow> Inl IndexError
      | Some m \<Rightarrow> (case mode_each vs of Inl e \<Rightarrow> Inl e | Inr ms \<Rightarrow> Inr (m # ms)))"

fun mode_batch :: "int list list list \<Rightarrow> error + int list list" where
  "mode_batch [] = Inr []"
| "mode_batch (item # items) =
     (case mode_each item of
        Inl e \<Rightarrow> Inl e
      | Inr ms \<Rightarrow> (case mode_batch items of Inl e \<Rightarrow> Inl e | Inr mss \<Rightarrow> Inr (ms # mss)))"

definition mode_dim_last :: "nat \<Rightarrow> int list list list \<Rightarrow> error + int list list" where
  "mode_dim_last label_dim sums =
     (if label_dim = 0 then Inl IndexError else mode_batch sums)"

text \<open>
  Modelled from the spec: \<open>make_pad_mask\<close> (muskit.torch\_utils.nets\_utils) is not under
  src/. The spec asks that any output frame index at or beyond the output length of its
  batch item is masked; the mask has the shape of the output and needs one length per
  batch item.
\<close>

definition make_pad_mask :: "int list \<Rightarrow> int list list \<Rightarrow> error + bool list list" where
  "make_pad_mask lengths xs =
     (if length lengths \<noteq> length xs then Inl RuntimeError
      else Inr (map (\<lambda>(len, row). map (\<lambda>f. len \<le> int f) [0..<length row]) (zip lengths xs)))"

definition masked_fill :: "int list list \<Rightarrow> bool list list \<Rightarrow> int \<Rightarrow> int list list" where
  "masked_fill output pad_mask v =
     map (\<lambda>(row, mrow). map (\<lambda>(x, m). if m then v else x) (zip row mrow)) (zip output pad_mask)"

text \<open>
  Step 4 (lines 110--120): the output lengths and the masking, or no length vector when
  \<open>input_lengths\<close> is \<open>None\<close>. The floor division of the length tensor by a zero hop
  raises.
\<close>

definition process_lengths ::
  "FrameLabelAggregate \<Rightarrow> int list list \<Rightarrow> int list option \<Rightarrow>
   error + (int list list \<times> int list option)" where
  "process_lengths self output input_lengths =
     (case input_lengths of
        None \<Rightarrow> Inr (output, None)
      | Some lens \<Rightarrow>
          (let lens' = (if center self
                        then map (\<lambda>l. l + 2 * int (win_length self div 2)) lens
                        else lens)
           in if hop_length self = 0 then Inl ZeroDivisionError
              else
                (let olens = map (\<lambda>l. (l - int (win_length self)) div int (hop_length self) + 1) lens'
                 in case make_pad_mask olens output of
                      Inl e \<Rightarrow> Inl e
                    | Inr pad_mask \<Rightarrow> Inr (masked_fill output pad_mask 0, Some olens))))"

text \<open>
  Steps 1--3 (lines 80--107). \<open>nframe\<close> is assigned inside \<open>if self.center:\<close> only, so
  without centring the read of \<open>nframe\<close> at line 101 raises \<open>UnboundLocalError\<close>. The
  frame count is a Python integer, and its floor division by a zero hop raises.
\<close>

definition padded_input :: "FrameLabelAggregate \<Rightarrow> tensor3 \<Rightarrow> int list list list" where
  "padded_input self input =
     (let pad = win_length self div 2;
          max_length = size1 input + 2 * pad
      in map (center_padding pad max_length (size2 input)) (elems input))"

definition aggregate :: "FrameLabelAggregate \<Rightarrow> tensor3 \<Rightarrow> error + int list list" where
  "aggregate self input =
     (let bs = size0 input; label_dim = size2 input in
      if center self then
        (let pad = win_length self div 2;
             max_length = size1 input + 2 * pad;
             padded = padded_input self input
         in if hop_length self = 0 then Inl ZeroDivisionError
            else
              (let nframe = (int max_length - int (win_length self)) div int (hop_length self) + 1
               in case as_strided (concat (map concat padded))
                         (bs, nframe, win_length self, label_dim)
                         (max_length * label_dim, hop_length self * label_dim, label_dim, 1) of
                    Inl e \<Rightarrow> Inl e
                  | Inr view \<Rightarrow> mode_dim_last label_dim (sum_dim2 label_dim view)))
      else Inl UnboundLocalError)"

definition forward ::
  "FrameLabelAggregate \<Rightarrow> tensor3 \<Rightarrow> int list option \<Rightarrow>
   error + (int list list \<times> int list option)" where
  "forward self input input_lengths =
     (case aggregate self input of
        Inl e \<Rightarrow> Inl e
      | Inr output \<Rightarrow> process_lengths self output input_lengths)"

subsection \<open>The boundary rule in the words of the specification\<close>

text \<open>
  The specification describes the boundary walk by its result: an index is recorded when
  its value differs from the value at the most recently recorded index. For a strictly
  increasing list \<open>recs\<close> of the indices the loop recorded, the index recorded most recently
  before step \<open>i\<close> is the greatest recorded index below \<open>i\<close>, or the initial \<open>0\<close>.
\<close>

definition last_recorded :: "nat list \<Rightarrow> nat \<Rightarrow> nat" where
  "last_recorded recs i = Max (set (0 # filter (\<lambda>j. j < i) recs))"

definition recorded :: "int list \<Rightarrow> nat \<Rightarrow> nat list \<Rightarrow> bool" where
  "recorded xs n recs \<longleftrightarrow>
     sorted_wrt (<) recs \<and> set recs \<subseteq> {0..<n} \<and>
     (\<forall>i \<in> {0..<n}. i \<in> set recs \<longleftrightarrow> xs ! i \<noteq> xs ! last_recorded recs i)"

subsection \<open>The output lengths in the words of the specification\<close>

text \<open>
  The specification gives the output length of a batch item as
  \<open>((len + 2 * pad if center else len) - window_length) // hop_length + 1\<close> with
  \<open>pad = window_length // 2\<close>.
\<close>

definition spec_output_lengths :: "FrameLabelAggregate \<Rightarrow> int list \<Rightarrow> int list" where
  "spec_output_lengths self input_lengths =
     map (\<lambda>len. ((if center self then len + 2 * int (win_length self div 2) else len)
                   - int (win_length self)) div int (hop_length self) + 1) input_lengths"

section \<open>Properties of the mode\<close>

lemma most_frequent_nonempty: "xs \<noteq> [] \<Longrightarrow> most_frequent xs \<noteq> []"
proof -
  assume ne: "xs \<noteq> []"
  let ?f = "count_list xs"
  have fin: "finite (?f ` set xs)" by simp
  have nemp: "?f ` set xs \<noteq> {}" using ne by simp
  from Max_in[OF fin nemp] obtain x where x: "x \<in> set xs" "?f x = Max (?f ` set xs)"
    by auto
  have "\<forall>y\<in>set xs. ?f y \<le> ?f x" using x(2) fin by simp
  with x(1) have "x \<in> set (most_frequent xs)" by (simp add: most_frequent_def)
  then show ?thesis by auto
qed

lemma mode_pair: "mode [a, b] = Some (min a b)"
  by (simp add: mode_def most_frequent_def min_def)

lemma mode_single: "mode [a] = Some a"
  by (simp add: mode_def most_frequent_def)

text \<open>
  The reduction \<open>mode\<close> on a non-empty collection returns a member that no other member
  outnumbers, and among the members of that highest frequency it returns the lowest; the
  mode of \<open>[3,3,5,5]\<close> is 3, in whatever order the values stand.
\<close>

theorem mode_lowest_most_frequent:
  assumes "xs \<noteq> []"
  shows "\<exists>m. mode xs = Some m \<and> m \<in> set xs
          \<and> (\<forall>y\<in>set xs. count_list xs y \<le> count_list xs m)
          \<and> (\<forall>y\<in>set xs. count_list xs y = count_list xs m \<longrightarrow> m \<le> y)"
proof -
  let ?C = "set (most_frequent xs)"
  let ?m = "Min ?C"
  have ne: "?C \<noteq> {}" using most_frequent_nonempty[OF assms] by simp
  have inC: "?m \<in> ?C" using ne by (intro Min_in) simp_all
  then have mem: "?m \<in> set xs" and top: "\<forall>y\<in>set xs. count_list xs y \<le> count_list xs ?m"
    by (simp_all add: most_frequent_def)
  have low: "\<forall>y\<in>set xs. count_list xs y = count_list xs ?m \<longrightarrow> ?m \<le> y"
  proof (intro ballI impI)
    fix y assume y: "y \<in> set xs" and eq: "count_list xs y = count_list xs ?m"
    have "y \<in> ?C" using y eq top by (simp add: most_frequent_def)
    then show "?m \<le> y" by simp
  qed
  show ?thesis using assms mem top low by (simp add: mode_def)
qed

theorem mode_lowest_most_frequent_witness:
  "mode [3, 3, 5, 5] = Some 3 \<and> mode [5, 5, 3, 3] = Some 3 \<and>
   count_list [3, 3, 5, 5] (5::int) = count_list [3, 3, 5, 5] (3::int)"
proof -
  have ne: "[3, 3, 5, 5] \<noteq> ([] :: int list)" by simp
  from mode_lowest_most_frequent[OF ne]
  obtain m where m: "mode [3, 3, 5, 5] = Some m" "m \<in> set [3, 3, 5, 5]"
    "\<forall>y\<in>set [3, 3, 5, 5]. count_list [3, 3, 5, 5] y = count_list [3, 3, 5, 5] m \<longrightarrow> m \<le> y"
    by blast
  from m(2) have "m = 3 \<or> m = 5" by simp
  moreover have "m \<noteq> 5" using m(3) by auto
  ultimately have "mode [3, 3, 5, 5] = Some 3" using m(1) by simp
  moreover have "mode [5, 5, 3, 3] = Some 3" by (simp add: mode_def most_frequent_def)
  ultimately show ?thesis by simp
qed

section \<open>Properties of get\_segments\<close>

text \<open>
  Claim C3. On durations \<open>[1,1,2,2,2]\<close> and score \<open>[9,9,9,8,8]\<close>, both of valid length 5,
  the boundary list is \<open>[0,2,3,5]\<close> and three segments come out, with durations \<open>1, 2, 2\<close>
  and scores \<open>9, 9, 8\<close>, for any five tempo values and any tempo length.
\<close>

theorem get_segments_example:
  "boundaries [1, 1, 2, 2, 2] 5 [9, 9, 9, 8, 8] 5 = Inr [0, 2, 3, 5] \<and>
   get_segments [1, 1, 2, 2, 2] 5 [9, 9, 9, 8, 8] 5 [a, b, c, d, e] tempo_lengths =
     Inr ([1, 2, 2], 3, [9, 9, 8], 3, [min a b, c, min d e], 3)"
proof -
  have b: "boundaries [1, 1, 2, 2, 2] 5 [9, 9, 9, 8, 8] 5 = Inr [0, 2, 3, 5]"
    by (simp add: boundaries_def upt_rec)
  have u: "[0..<3] = [0, 1, 2]" by (simp add: upt_rec)
  show ?thesis
    by (simp add: get_segments_def b u slice_def mode_pair mode_single)
qed

theorem get_segments_example_witness:
  "get_segments [1, 1, 2, 2, 2] 5 [9, 9, 9, 8, 8] 5 [4, 4, 4, 6, 7] 5 =
     Inr ([1, 2, 2], 3, [9, 9, 8], 3, [4, 4, 6], 3)"
  using get_segments_example[of 4 4 4 6 7 5] by simp

text \<open>
  Claim C4, as the code has it. The claim promises an empty result as soon as one of the
  three lengths is 0. The code has no test for a zero length and never reads
  \<open>tempo_lengths\<close>: a zero duration length (or a zero tempo length) beside a score length
  of 2 still gives one segment.
\<close>

theorem get_segments_zero_length_counterexample:
  "get_segments [1, 1] 0 [9, 9] 2 [5, 5] 2 = Inr ([1], 1, [9], 1, [5], 1) \<and>
   get_segments [1, 1] 2 [9, 9] 2 [5, 5] 0 = Inr ([1], 1, [9], 1, [5], 1)"
proof -
  have u: "[0..<2] = [0, 1]" by (simp add: upt_rec)
  have m: "mode [1, 1] = Some 1" "mode [9, 9] = Some 9" "mode [5, 5] = Some 5"
    by (simp_all add: mode_pair)
  show ?thesis
    by (simp add: get_segments_def boundaries_def u slice_def m)
qed

text \<open>
  Claim C4, amended. When the duration length and the score length are both 0 (so in
  particular when all three lengths are 0), \<open>get_segments\<close> returns the empty segment
  lists with all three counts 0 and raises nothing, whatever the tensors hold.
\<close>

theorem get_segments_empty:
  "get_segments durations 0 score 0 tempo tempo_lengths = Inr ([], 0, [], 0, [], 0)"
  by (simp add: get_segments_def boundaries_def)

theorem get_segments_empty_witness:
  "get_segments [] 0 [] 0 [] 0 = Inr ([], 0, [], 0, [], 0) \<and>
   get_segments [1, 1] 0 [9, 9] 0 [5, 5] 2 = Inr ([], 0, [], 0, [], 0)"
  using get_segments_empty[of "[]" "[]" "[]" 0] get_segments_empty[of "[1, 1]" "[9, 9]" "[5, 5]" 2]
  by simp

subsection \<open>Padding and the valid lengths\<close>

lemma walk_loop_take:
  "\<forall>i\<in>set is. i < m \<Longrightarrow> is = [] \<or> last seq < m \<Longrightarrow>
   walk_loop (take m xs) is seq = walk_loop xs is seq"
proof (induction "is" arbitrary: seq)
  case Nil
  then show ?case by simp
next
  case (Cons i "is")
  then have i: "i < m" and l: "last seq < m" by simp_all
  have IH: "walk_loop (take m xs) is s' = walk_loop xs is s'" if "last s' < m" for s'
    using Cons.IH[of s'] Cons.prems(1) that by simp
  show ?case using i l by (simp add: IH)
qed

lemma walk_loop_set:
  "walk_loop xs is seq = Inr r \<Longrightarrow> set r \<subseteq> set seq \<union> set is"
proof (induction "is" arbitrary: seq)
  case Nil
  then show ?case by simp
next
  case (Cons i "is")
  then show ?case by (fastforce split: if_splits)
qed

lemma boundaries_take:
  "m = max dl sl \<Longrightarrow> boundaries (take m d) dl (take m s) sl = boundaries d dl s sl"
proof -
  assume m: "m = max dl sl"
  have 1: "walk_loop (take m d) [0..<dl] [0] = walk_loop d [0..<dl] [0]"
    by (rule walk_loop_take) (use m in auto)
  have 2: "walk_loop (take m s) [0..<sl] (q @ [dl, 0]) = walk_loop s [0..<sl] (q @ [dl, 0])" for q
    by (rule walk_loop_take) (use m in auto)
  show ?thesis by (simp add: boundaries_def 1 2 split: sum.splits)
qed

lemma boundaries_bound:
  assumes "boundaries d dl s sl = Inr seq"
  shows "\<forall>b\<in>set seq. b \<le> max dl sl"
proof -
  from assms obtain q1 q2 where q1: "walk_loop d [0..<dl] [0] = Inr q1"
    and q2: "walk_loop s [0..<sl] (q1 @ [dl] @ [0]) = Inr q2"
    and seq: "seq = sort (remdups (q2 @ [sl]))"
    by (auto simp: boundaries_def split: sum.splits)
  from walk_loop_set[OF q1] have "\<forall>b\<in>set q1. b \<le> max dl sl" by auto
  moreover from walk_loop_set[OF q2] have "set q2 \<subseteq> set q1 \<union> {dl, 0} \<union> {0..<sl}" by auto
  ultimately have "\<forall>b\<in>set q2. b \<le> max dl sl" by auto
  then show ?thesis using seq by auto
qed

lemma slice_take: "r \<le> m \<Longrightarrow> slice (take m xs) l r = slice xs l r"
  by (simp add: slice_def drop_take min_def)

lemma seg_loop_take:
  "\<forall>i\<in>set is. i + 1 < length seq \<Longrightarrow> \<forall>b\<in>set seq. b \<le> m \<Longrightarrow>
   seg_loop (take m d) (take m s) (take m t) seq is acc = seg_loop d s t seq is acc"
proof (induction "is" arbitrary: acc)
  case Nil
  then show ?case by simp
next
  case (Cons i "is")
  obtain a b c where acc: "acc = (a, b, c)" by (cases acc) auto
  have r: "seq ! (i + 1) \<le> m" using Cons.prems by simp
  have IH: "seg_loop (take m d) (take m s) (take m t) seq is acc' = seg_loop d s t seq is acc'" for acc'
    using Cons.IH[of acc'] Cons.prems by simp
  show ?case using r by (simp add: acc Let_def slice_take IH split: option.splits)
qed

lemma get_segments_take:
  "get_segments (take (max dl sl) d) dl (take (max dl sl) s) sl (take (max dl sl) t) n
   = get_segments d dl s sl t n"
proof (cases "boundaries d dl s sl")
  case (Inl e)
  then show ?thesis by (simp add: get_segments_def boundaries_take)
next
  case (Inr seq)
  have "seg_loop (take (max dl sl) d) (take (max dl sl) s) (take (max dl sl) t) seq [0..<length seq - 1] ([],[],[])
        = seg_loop d s t seq [0..<length seq - 1] ([],[],[])"
    by (rule seg_loop_take) (use boundaries_bound[OF Inr] in auto)
  then show ?thesis using Inr by (simp add: get_segments_def boundaries_take)
qed

text \<open>
  Claim C5, as the code has it. The segments reach up to the greater of the duration and
  score lengths, and each segment takes the mode of all three streams there. With a
  duration length of 1 and a score length of 2, the duration value at index 1 (padding of
  the duration stream) is the second segment's duration: 7 in one call, 8 in the other.
\<close>

theorem get_segments_padding_counterexample:
  "get_segments [1, 7] 1 [9, 9] 2 [5, 5] 2 = Inr ([1, 7], 2, [9, 9], 2, [5, 5], 2) \<and>
   get_segments [1, 8] 1 [9, 9] 2 [5, 5] 2 = Inr ([1, 8], 2, [9, 9], 2, [5, 5], 2) \<and>
   get_segments [1, 7] 1 [9, 9] 2 [5, 5] 2 \<noteq> get_segments [1, 8] 1 [9, 9] 2 [5, 5] 2"
proof -
  have u: "[0..<2] = [0, 1]" by (simp add: upt_rec)
  have b: "boundaries [1, 7] (Suc 0) [9, 9] 2 = Inr [0, 1, 2]"
    "boundaries [1, 8] (Suc 0) [9, 9] 2 = Inr [0, 1, 2]"
    by (simp_all add: boundaries_def upt_rec)
  have 1: "get_segments [1, 7] 1 [9, 9] 2 [5, 5] 2 = Inr ([1, 7], 2, [9, 9], 2, [5, 5], 2)"
    by (simp add: get_segments_def b u slice_def mode_single)
  have 2: "get_segments [1, 8] 1 [9, 9] 2 [5, 5] 2 = Inr ([1, 8], 2, [9, 9], 2, [5, 5], 2)"
    by (simp add: get_segments_def b u slice_def mode_single)
  show ?thesis unfolding 1 2 by simp
qed

text \<open>
  Claim C5, amended. Two calls with the same duration and score lengths whose three streams
  agree on every index below the greater of those two lengths return the same result (the
  same segment values and counts, or the same error): values at or beyond
  \<open>max durations_lengths score_lengths\<close> never influence the output, and neither does
  \<open>tempo_lengths\<close>.
\<close>

theorem get_segments_padding_beyond_max:
  assumes "take (max durations_lengths score_lengths) durations1
         = take (max durations_lengths score_lengths) durations2"
    and "take (max durations_lengths score_lengths) score1
       = take (max durations_lengths score_lengths) score2"
    and "take (max durations_lengths score_lengths) tempo1
       = take (max durations_lengths score_lengths) tempo2"
  shows "get_segments durations1 durations_lengths score1 score_lengths tempo1 tempo_lengths1
       = get_segments durations2 durations_lengths score2 score_lengths tempo2 tempo_lengths2"
proof -
  have "get_segments durations1 durations_lengths score1 score_lengths tempo1 tempo_lengths1
      = get_segments (take (max durations_lengths score_lengths) durations1) durations_lengths
          (take (max durations_lengths score_lengths) score1) score_lengths
          (take (max durations_lengths score_lengths) tempo1) tempo_lengths1"
    by (simp add: get_segments_take)
  also have "\<dots> = get_segments (take (max durations_lengths score_lengths) durations2) durations_lengths
          (take (max durations_lengths score_lengths) score2) score_lengths
          (take (max durations_lengths score_lengths) tempo2) tempo_lengths2"
    unfolding assms by (simp add: get_segments_def)
  also have "\<dots> = get_segments durations2 durations_lengths score2 score_lengths tempo2 tempo_lengths2"
    by (simp add: get_segments_take)
  finally show ?thesis .
qed

theorem get_segments_padding_beyond_max_witness:
  "get_segments [1, 1, 7] 2 [9, 8, 0] 2 [5, 5, 3] 2 = get_segments [1, 1, 8, 4] 2 [9, 8, 2] 2 [5, 5] 1"
  using get_segments_padding_beyond_max[of 2 2 "[1, 1, 7]" "[1, 1, 8, 4]" "[9, 8, 0]" "[9, 8, 2]"
          "[5, 5, 3]" "[5, 5]" 2 1]
  by simp

subsection \<open>The boundary walks\<close>

lemma Max_insert_absorb:
  assumes "finite S" "a \<le> (b::nat)"
  shows "Max (insert a (insert b S)) = Max (insert b S)"
proof -
  have "Max (insert a (insert b S)) = max a (Max (insert b S))"
    using assms(1) by (intro Max_insert) auto
  moreover have "b \<le> Max (insert b S)" using assms(1) by (intro Max_ge) auto
  ultimately show ?thesis using assms(2) by (simp add: max_absorb2)
qed

text \<open>
  The loop from index \<open>k\<close> on, started on a list whose last entry is at most \<open>k\<close>:
  it appends a strictly increasing list of indices, and appends \<open>i\<close> exactly when the
  value at \<open>i\<close> differs from the value at the index appended last before step \<open>i\<close>.
\<close>

lemma walk_loop_from:
  assumes "n \<le> length xs" "last seq \<le> k"
  shows "\<exists>recs. walk_loop xs [k..<n] seq = Inr (seq @ recs) \<and> sorted_wrt (<) recs \<and>
           set recs \<subseteq> {k..<n} \<and>
           (\<forall>i \<in> {k..<n}. i \<in> set recs \<longleftrightarrow>
               xs ! i \<noteq> xs ! Max (set (last seq # filter (\<lambda>j. j < i) recs)))"
  using assms
proof (induction "n - k" arbitrary: k seq)
  case 0
  then show ?case by simp
next
  case (Suc d)
  then have kn: "k < n" and d: "d = n - Suc k" by simp_all
  have upt: "[k..<n] = k # [Suc k..<n]" using kn by (simp add: upt_rec)
  have inb: "last seq < length xs" "k < length xs" using Suc.prems kn by simp_all
  show ?case
  proof (cases "xs ! last seq \<noteq> xs ! k")
    case True
    from Suc.hyps(1)[OF d Suc.prems(1), of "seq @ [k]"]
    obtain r where r: "walk_loop xs [Suc k..<n] (seq @ [k]) = Inr ((seq @ [k]) @ r)"
      "sorted_wrt (<) r" "set r \<subseteq> {Suc k..<n}"
      "\<forall>i \<in> {Suc k..<n}. i \<in> set r \<longleftrightarrow>
          xs ! i \<noteq> xs ! Max (set (last (seq @ [k]) # filter (\<lambda>j. j < i) r))"
      by auto
    have nofil: "filter (\<lambda>j. j < k) r = []" using r(3) by (auto simp: filter_empty_conv)
    have "walk_loop xs [k..<n] seq = Inr (seq @ k # r)"
      using True inb r(1) by (simp add: upt)
    moreover have "sorted_wrt (<) (k # r)" using r(2,3) by auto
    moreover have "set (k # r) \<subseteq> {k..<n}" using r(3) kn by auto
    moreover have "\<forall>i \<in> {k..<n}. i \<in> set (k # r) \<longleftrightarrow>
        xs ! i \<noteq> xs ! Max (set (last seq # filter (\<lambda>j. j < i) (k # r)))"
    proof
      fix i assume i: "i \<in> {k..<n}"
      show "i \<in> set (k # r) \<longleftrightarrow>
            xs ! i \<noteq> xs ! Max (set (last seq # filter (\<lambda>j. j < i) (k # r)))"
      proof (cases "i = k")
        case True
        then show ?thesis using \<open>xs ! last seq \<noteq> xs ! k\<close> nofil by simp
      next
        case False
        then have i': "i \<in> {Suc k..<n}" "k < i" using i by auto
        have "Max (set (last seq # filter (\<lambda>j. j < i) (k # r)))
              = Max (set (k # filter (\<lambda>j. j < i) r))"
          using i'(2) Max_insert_absorb[of "set (filter (\<lambda>j. j < i) r)" "last seq" k]
            Suc.prems(2)
          by simp
        then show ?thesis using r(4) i' False by simp
      qed
    qed
    ultimately show ?thesis by blast
  next
    case False
    from Suc.hyps(1)[OF d Suc.prems(1), of seq] Suc.prems(2)
    obtain r where r: "walk_loop xs [Suc k..<n] seq = Inr (seq @ r)"
      "sorted_wrt (<) r" "set r \<subseteq> {Suc k..<n}"
      "\<forall>i \<in> {Suc k..<n}. i \<in> set r \<longleftrightarrow>
          xs ! i \<noteq> xs ! Max (set (last seq # filter (\<lambda>j. j < i) r))"
      by auto
    have nofil: "filter (\<lambda>j. j < k) r = []" using r(3) by (auto simp: filter_empty_conv)
    have "walk_loop xs [k..<n] seq = Inr (seq @ r)"
      using False inb r(1) by (simp add: upt)
    moreover have "set r \<subseteq> {k..<n}" using r(3) by auto
    moreover have "\<forall>i \<in> {k..<n}. i \<in> set r \<longleftrightarrow>
        xs ! i \<noteq> xs ! Max (set (last seq # filter (\<lambda>j. j < i) r))"
    proof
      fix i assume i: "i \<in> {k..<n}"
      show "i \<in> set r \<longleftrightarrow> xs ! i \<noteq> xs ! Max (set (last seq # filter (\<lambda>j. j < i) r))"
      proof (cases "i = k")
        case True
        then show ?thesis using False nofil r(3) by auto
      next
        case False
        then show ?thesis using r(4) i by simp
      qed
    qed
    ultimately show ?thesis using r(2) by blast
  qed
qed

lemma walk_loop_recorded:
  assumes "n \<le> length xs"
  shows "\<exists>recs. walk_loop xs [0..<n] (pre @ [0]) = Inr (pre @ 0 # recs) \<and> recorded xs n recs"
  using walk_loop_from[OF assms, of "pre @ [0]" 0]
  by (auto simp: recorded_def last_recorded_def)

text \<open>
  Claim C7. When the two valid lengths fit their tensors, both walks return. The duration
  walk starts from the recorded index 0 and records the list \<open>rd\<close>; the score walk starts
  from a fresh 0 and records \<open>rs\<close>, independently of what the duration walk left. In each
  walk an index below the valid length is recorded exactly when its value differs from the
  value at the index recorded most recently before it (\<open>recorded\<close>), and each walk is
  closed by the stream's valid length.
\<close>

theorem boundary_walk_rule:
  assumes "durations_lengths \<le> length durations" "score_lengths \<le> length score"
  shows "\<exists>rd rs.
      walk_loop durations [0..<durations_lengths] [0] = Inr (0 # rd) \<and>
      recorded durations durations_lengths rd \<and>
      walk_loop score [0..<score_lengths] ((0 # rd) @ [durations_lengths] @ [0])
        = Inr ((0 # rd) @ [durations_lengths] @ 0 # rs) \<and>
      recorded score score_lengths rs \<and>
      boundaries durations durations_lengths score score_lengths
        = Inr (sort (remdups (0 # rd @ [durations_lengths] @ 0 # rs @ [score_lengths])))"
proof -
  from walk_loop_recorded[OF assms(1), of "[]"]
  obtain rd where rd: "walk_loop durations [0..<durations_lengths] [0] = Inr (0 # rd)"
    "recorded durations durations_lengths rd" by auto
  from walk_loop_recorded[OF assms(2), of "(0 # rd) @ [durations_lengths]"]
  obtain rs where rs: "walk_loop score [0..<score_lengths] ((0 # rd) @ [durations_lengths] @ [0])
        = Inr ((0 # rd) @ [durations_lengths] @ 0 # rs)"
    "recorded score score_lengths rs" by auto
  have "boundaries durations durations_lengths score score_lengths
        = Inr (sort (remdups (0 # rd @ [durations_lengths] @ 0 # rs @ [score_lengths])))"
    using rd(1) rs(1) by (simp add: boundaries_def)
  with rd rs show ?thesis by blast
qed

theorem boundary_walk_rule_witness:
  "recorded [1, 1, 2, 2, 2] 5 [2] \<and> recorded [9, 9, 9, 8, 8] 5 [3] \<and>
   boundaries [1, 1, 2, 2, 2] 5 [9, 9, 9, 8, 8] 5 = Inr [0, 2, 3, 5]"
proof -
  have l: "(5::nat) \<le> length [1, 1, 2, 2, 2 :: int]" "(5::nat) \<le> length [9, 9, 9, 8, 8 :: int]"
    by simp_all
  from boundary_walk_rule[OF l]
  obtain rd rs where w: "walk_loop [1, 1, 2, 2, 2] [0..<5] [0] = Inr (0 # rd)"
    "recorded [1, 1, 2, 2, 2] 5 rd"
    "walk_loop [9, 9, 9, 8, 8] [0..<5] ((0 # rd) @ [5] @ [0]) = Inr ((0 # rd) @ [5] @ 0 # rs)"
    "recorded [9, 9, 9, 8, 8] 5 rs"
    "boundaries [1, 1, 2, 2, 2] 5 [9, 9, 9, 8, 8] 5 = Inr (sort (remdups (0 # rd @ [5] @ 0 # rs @ [5])))"
    by blast
  have u: "[0..<5] = [0, 1, 2, 3, 4]" by (simp add: upt_rec)
  have rd: "rd = [2]" using w(1) unfolding u by simp
  have rs: "rs = [3]" using w(3) unfolding rd u by simp
  show ?thesis using w(2,4,5) unfolding rd rs by simp
qed

subsection \<open>The tempo stream\<close>

lemma seg_loop_tempo_indep:
  "seg_loop d s t seq is (a, b, c) = Inr (a', b', c') \<Longrightarrow>
   seg_loop d s t2 seq is (a, b, c2) = Inr (a2, b2, c2') \<Longrightarrow> a' = a2 \<and> b' = b2"
proof (induction "is" arbitrary: a b c c2)
  case Nil
  then show ?case by simp
next
  case (Cons i "is")
  from Cons.prems show ?case
    by (auto simp: Let_def split: option.splits dest: Cons.IH)
qed

text \<open>
  Claim C10. Two calls that differ in \<open>tempo_lengths\<close> only return the same result. The
  boundary list is computed from the duration and score streams alone (\<open>boundaries\<close> takes
  no tempo argument), so two calls that differ in the tempo stream as well, when both
  return, give the same segment durations, the same segment scores and the same three
  counts: the tempo is summarised per segment and never splits one.
\<close>

theorem get_segments_ignores_tempo_lengths:
  "get_segments durations durations_lengths score score_lengths tempo tempo_lengths1
     = get_segments durations durations_lengths score score_lengths tempo tempo_lengths2 \<and>
   (get_segments durations durations_lengths score score_lengths tempo tempo_lengths1
       = Inr (sd, n1, ss, n2, st, n3) \<longrightarrow>
    get_segments durations durations_lengths score score_lengths tempo' tempo_lengths2
       = Inr (sd', n1', ss', n2', st', n3') \<longrightarrow>
    sd' = sd \<and> ss' = ss \<and> n1' = n1 \<and> n2' = n2 \<and> n3' = n3 \<and> n1 = n2 \<and> n2 = n3)"
proof -
  have A: "get_segments durations durations_lengths score score_lengths tempo tempo_lengths1
     = get_segments durations durations_lengths score score_lengths tempo tempo_lengths2"
    by (simp add: get_segments_def)
  have B: "sd' = sd \<and> ss' = ss \<and> n1' = n1 \<and> n2' = n2 \<and> n3' = n3 \<and> n1 = n2 \<and> n2 = n3"
    if 1: "get_segments durations durations_lengths score score_lengths tempo tempo_lengths1
       = Inr (sd, n1, ss, n2, st, n3)"
    and 2: "get_segments durations durations_lengths score score_lengths tempo' tempo_lengths2
       = Inr (sd', n1', ss', n2', st', n3')"
  proof -
    from 1 obtain seq where seq: "boundaries durations durations_lengths score score_lengths = Inr seq"
      by (auto simp: get_segments_def split: sum.splits)
    from 1 seq have l1: "seg_loop durations score tempo seq [0..<length seq - 1] ([], [], []) = Inr (sd, ss, st)"
      and n: "n1 = length seq - 1" "n2 = length seq - 1" "n3 = length seq - 1"
      by (auto simp: get_segments_def Let_def split: sum.splits)
    from 2 seq have l2: "seg_loop durations score tempo' seq [0..<length seq - 1] ([], [], []) = Inr (sd', ss', st')"
      and n': "n1' = length seq - 1" "n2' = length seq - 1" "n3' = length seq - 1"
      by (auto simp: get_segments_def Let_def split: sum.splits)
    from seg_loop_tempo_indep[OF l1 l2] n n' show ?thesis by simp
  qed
  from A B show ?thesis by blast
qed

theorem get_segments_ignores_tempo_lengths_witness:
  "get_segments [1, 1] 2 [9, 9] 2 [5, 5] 2 = get_segments [1, 1] 2 [9, 9] 2 [5, 5] 0 \<and>
   get_segments [1, 1] 2 [9, 9] 2 [5, 5] 2 = Inr ([1], 1, [9], 1, [5], 1) \<and>
   get_segments [1, 1] 2 [9, 9] 2 [6, 7] 0 = Inr ([1], 1, [9], 1, [6], 1)"
proof -
  have u: "[0..<2] = [0, 1]" by (simp add: upt_rec)
  have b: "boundaries [1, 1] 2 [9, 9] 2 = Inr [0, 2]"
    by (simp add: boundaries_def upt_rec)
  have 1: "get_segments [1, 1] 2 [9, 9] 2 [5, 5] 2 = Inr ([1], 1, [9], 1, [5], 1)"
    by (simp add: get_segments_def b slice_def mode_pair)
  have 2: "get_segments [1, 1] 2 [9, 9] 2 [6, 7] 0 = Inr ([1], 1, [9], 1, [6], 1)"
    by (simp add: get_segments_def b slice_def mode_pair)
  from get_segments_ignores_tempo_lengths[of "[1, 1]" 2 "[9, 9]" 2 "[5, 5]" 2 0
      "[1]" 1 "[9]" 1 "[5]" 1 "[6, 7]" "[1]" 1 "[9]" 1 "[6]" 1] 1 2
  show ?thesis by simp
qed

section \<open>Properties of forward\<close>

subsection \<open>Centre padding\<close>

text \<open>
  Both slice assignments of Step 1 copy a slice onto a slice of the same length, so the
  tensor library's shape check never fails there.
\<close>

lemma center_padding_shapes:
  fixes item :: "int list list"
  assumes "length item = n"
    and "input0 = replicate pad (replicate d 0) @ item @ replicate pad (replicate d 0)"
    and "input1 = assign_slice input0 0 pad (slice input0 pad (2 * pad))"
    and "max_length = n + 2 * pad"
  shows "length (slice input0 pad (2 * pad)) = length (slice input0 0 pad)"
    and "length (slice input1 (max_length - 2 * pad) (max_length - pad))
         = length (slice input1 (max_length - pad) max_length)"
  using assms by (simp_all add: assign_slice_def slice_def)

lemma assign_head:
  assumes "length xs = n + 2 * pad"
  shows "slice (assign_slice xs 0 pad (slice xs pad (2 * pad))) 0 pad
       = slice (assign_slice xs 0 pad (slice xs pad (2 * pad))) pad (2 * pad)"
    and "length (assign_slice xs 0 pad (slice xs pad (2 * pad))) = n + 2 * pad"
  using assms by (simp_all add: assign_slice_def slice_def)

lemma assign_tail:
  assumes "length ys = n + 2 * pad"
  shows "slice (assign_slice ys (n + pad) (n + 2 * pad) (slice ys n (n + pad))) (n + pad) (n + 2 * pad)
       = slice (assign_slice ys (n + pad) (n + 2 * pad) (slice ys n (n + pad))) n (n + pad)"
    and "length (assign_slice ys (n + pad) (n + 2 * pad) (slice ys n (n + pad))) = n + 2 * pad"
  using assms by (simp_all add: assign_slice_def slice_def drop_take)

lemma assign_tail_keeps_head:
  assumes len: "length ys = n + 2 * pad"
    and head: "slice ys 0 pad = slice ys pad (2 * pad)"
  shows "take (2 * pad) (assign_slice ys (n + pad) (n + 2 * pad) (slice ys n (n + pad)))
       = take (2 * pad) ys"
proof (rule nth_equalityI)
  show "length (take (2 * pad) (assign_slice ys (n + pad) (n + 2 * pad) (slice ys n (n + pad))))
      = length (take (2 * pad) ys)"
    using len by (simp add: assign_slice_def slice_def)
next
  fix i
  assume "i < length (take (2 * pad) (assign_slice ys (n + pad) (n + 2 * pad) (slice ys n (n + pad))))"
  then have i: "i < 2 * pad" by simp
  have shift: "ys ! j = ys ! (pad + j)" if "j < pad" for j
  proof -
    have "take pad ys ! j = take pad (drop pad ys) ! j" using head by (simp add: slice_def)
    then show ?thesis using that len by simp
  qed
  show "take (2 * pad) (assign_slice ys (n + pad) (n + 2 * pad) (slice ys n (n + pad))) ! i
      = take (2 * pad) ys ! i"
  proof (cases "i < n + pad")
    case True
    then show ?thesis using i len by (simp add: assign_slice_def slice_def nth_append)
  next
    case False
    then have "assign_slice ys (n + pad) (n + 2 * pad) (slice ys n (n + pad)) ! i = ys ! (i - pad)"
      using i len by (simp add: assign_slice_def slice_def nth_append)
    moreover have "ys ! (i - pad) = ys ! i" using shift[of "i - pad"] False i by simp
    ultimately show ?thesis using i by simp
  qed
qed

lemma slice_of_take: "hi \<le> m \<Longrightarrow> slice (take m xs) lo hi = slice xs lo hi"
  by (simp add: slice_def drop_take min_def)

lemma center_padding_reflects:
  assumes "length item = n"
  shows "slice (center_padding pad (n + 2 * pad) d item) 0 pad
       = slice (center_padding pad (n + 2 * pad) d item) pad (2 * pad)"
    and "slice (center_padding pad (n + 2 * pad) d item) (n + 2 * pad - pad) (n + 2 * pad)
       = slice (center_padding pad (n + 2 * pad) d item) (n + 2 * pad - 2 * pad) (n + 2 * pad - pad)"
    and "length (center_padding pad (n + 2 * pad) d item) = n + 2 * pad"
proof -
  define input0 where "input0 = replicate pad (replicate d (0::int)) @ item @ replicate pad (replicate d 0)"
  define input1 where "input1 = assign_slice input0 0 pad (slice input0 pad (2 * pad))"
  define input2 where "input2 = assign_slice input1 (n + pad) (n + 2 * pad) (slice input1 n (n + pad))"
  have len0: "length input0 = n + 2 * pad" using assms by (simp add: input0_def)
  have len1: "length input1 = n + 2 * pad" unfolding input1_def by (rule assign_head(2)[OF len0])
  have h1: "slice input1 0 pad = slice input1 pad (2 * pad)"
    unfolding input1_def by (rule assign_head(1)[OF len0])
  have e: "n + 2 * pad - pad = n + pad" "n + 2 * pad - 2 * pad = n" by simp_all
  have cp: "center_padding pad (n + 2 * pad) d item = input2"
    unfolding center_padding_def Let_def e input2_def input1_def input0_def by (rule refl)
  have keep: "take (2 * pad) input2 = take (2 * pad) input1"
    unfolding input2_def by (rule assign_tail_keeps_head[OF len1 h1])
  have "slice input2 0 pad = slice (take (2 * pad) input2) 0 pad"
    by (simp add: slice_of_take)
  also have "\<dots> = slice input1 0 pad" unfolding keep by (simp add: slice_of_take)
  also have "\<dots> = slice input1 pad (2 * pad)" by (rule h1)
  also have "\<dots> = slice (take (2 * pad) input2) pad (2 * pad)"
    unfolding keep by (simp add: slice_of_take)
  also have "\<dots> = slice input2 pad (2 * pad)" by (simp add: slice_of_take)
  finally show "slice (center_padding pad (n + 2 * pad) d item) 0 pad
       = slice (center_padding pad (n + 2 * pad) d item) pad (2 * pad)"
    unfolding cp .
  have "slice input2 (n + pad) (n + 2 * pad) = slice input2 n (n + pad)"
    unfolding input2_def by (rule assign_tail(1)[OF len1])
  then show "slice (center_padding pad (n + 2 * pad) d item) (n + 2 * pad - pad) (n + 2 * pad)
       = slice (center_padding pad (n + 2 * pad) d item) (n + 2 * pad - 2 * pad) (n + 2 * pad - pad)"
    unfolding cp e .
  show "length (center_padding pad (n + 2 * pad) d item) = n + 2 * pad"
    unfolding cp input2_def by (rule assign_tail(2)[OF len1])
qed

lemma padded_input_items:
  assumes "wf_tensor3 input" "padded \<in> set (padded_input self input)"
  shows "length padded = size1 input + 2 * (win_length self div 2)"
    and "slice padded 0 (win_length self div 2)
       = slice padded (win_length self div 2) (2 * (win_length self div 2))"
    and "slice padded (size1 input + 2 * (win_length self div 2) - win_length self div 2)
           (size1 input + 2 * (win_length self div 2))
       = slice padded (size1 input + 2 * (win_length self div 2) - 2 * (win_length self div 2))
           (size1 input + 2 * (win_length self div 2) - win_length self div 2)"
proof -
  from assms(2) obtain item where item: "item \<in> set (elems input)"
    and p: "padded = center_padding (win_length self div 2)
              (size1 input + 2 * (win_length self div 2)) (size2 input) item"
    by (auto simp: padded_input_def Let_def)
  have len: "length item = size1 input"
    using assms(1) item by (auto simp: wf_tensor3_def list_all_iff)
  show "length padded = size1 input + 2 * (win_length self div 2)"
    unfolding p by (rule center_padding_reflects(3)[OF len])
  show "slice padded 0 (win_length self div 2)
       = slice padded (win_length self div 2) (2 * (win_length self div 2))"
    unfolding p by (rule center_padding_reflects(1)[OF len])
  show "slice padded (size1 input + 2 * (win_length self div 2) - win_length self div 2)
           (size1 input + 2 * (win_length self div 2))
       = slice padded (size1 input + 2 * (win_length self div 2) - 2 * (win_length self div 2))
           (size1 input + 2 * (win_length self div 2) - win_length self div 2)"
    unfolding p by (rule center_padding_reflects(2)[OF len])
qed

lemma masked_rows:
  assumes "length lengths = length xs"
  shows "\<exists>out. make_pad_mask lengths xs = Inr (map (\<lambda>(len, row). map (\<lambda>f. len \<le> int f) [0..<length row]) (zip lengths xs))
     \<and> out = masked_fill xs (map (\<lambda>(len, row). map (\<lambda>f. len \<le> int f) [0..<length row]) (zip lengths xs)) 0
     \<and> length out = length xs
     \<and> (\<forall>i < length xs. length (out ! i) = length (xs ! i) \<and>
           (\<forall>f < length (xs ! i). out ! i ! f = (if lengths ! i \<le> int f then 0 else xs ! i ! f)))"
  using assms by (simp add: make_pad_mask_def masked_fill_def)

subsection \<open>Framing and aggregation return under centring\<close>

lemma center_padding_rows:
  assumes "\<forall>v\<in>set item. length v = d" "v \<in> set (center_padding pad ml d item)"
  shows "length v = d"
proof -
  have sub: "set (center_padding pad ml d item) \<subseteq> set item \<union> {replicate d 0}"
    unfolding center_padding_def Let_def assign_slice_def slice_def
    by (auto dest!: in_set_takeD in_set_dropD)
  with assms show ?thesis by auto
qed

lemma length_concat_const:
  assumes "\<forall>x\<in>set xss. length x = c"
  shows "length (concat xss) = length xss * c"
  using assms by (induction xss) simp_all

lemma storage_length:
  assumes "wf_tensor3 input"
  shows "length (concat (map concat (padded_input self input)))
       = size0 input * ((size1 input + 2 * (win_length self div 2)) * size2 input)"
proof -
  have each: "length (concat p) = (size1 input + 2 * (win_length self div 2)) * size2 input"
    if p: "p \<in> set (padded_input self input)" for p
  proof -
    from p obtain item where item: "item \<in> set (elems input)"
      and pe: "p = center_padding (win_length self div 2)
              (size1 input + 2 * (win_length self div 2)) (size2 input) item"
      by (auto simp: padded_input_def Let_def)
    have rows: "\<forall>v\<in>set item. length v = size2 input"
      using assms item by (auto simp: wf_tensor3_def list_all_iff)
    have "\<forall>v\<in>set p. length v = size2 input"
      unfolding pe using center_padding_rows[OF rows] by blast
    then have "length (concat p) = length p * size2 input" by (rule length_concat_const)
    then show ?thesis using padded_input_items(1)[OF assms p] by simp
  qed
  have "length (concat (map concat (padded_input self input)))
      = length (map concat (padded_input self input)) * ((size1 input + 2 * (win_length self div 2)) * size2 input)"
    by (rule length_concat_const) (use each in auto)
  moreover have "length (padded_input self input) = size0 input"
    using assms by (simp add: padded_input_def Let_def wf_tensor3_def)
  ultimately show ?thesis by simp
qed

lemma nframe_nonneg:
  assumes "h \<noteq> 0"
  shows "0 \<le> (int (n + 2 * (w div 2)) - int w) div int h + 1"
proof -
  have "- 1 \<le> int (n + 2 * (w div 2)) - int w" by (simp add: algebra_simps)
  then have "(- 1) div int h \<le> (int (n + 2 * (w div 2)) - int w) div int h"
    using assms by (intro zdiv_mono1) simp_all
  moreover have "(- 1) div int h = - 1" using assms by (simp add: div_eq_minus1)
  ultimately show ?thesis by simp
qed

lemma frames_fit:
  assumes "h \<noteq> 0" "nat ((int ml - int w) div int h + 1) \<noteq> 0"
  shows "(nat ((int ml - int w) div int h + 1) - 1) * h + w \<le> ml"
proof -
  let ?q = "(int ml - int w) div int h"
  let ?f = "nat (?q + 1) - 1"
  have q0: "0 \<le> ?q" using assms(2) by simp
  have wle: "w \<le> ml"
  proof (rule ccontr)
    assume "\<not> w \<le> ml"
    then have "int ml - int w < 0" by simp
    then have "?q < 0" using assms(1) by (simp add: div_neg_pos_less0)
    with q0 show False by simp
  qed
  have m0: "0 \<le> (int ml - int w) mod int h" using assms(1) by simp
  have L: "int h * ?q \<le> int ml - int w"
    using mult_div_mod_eq[of "int h" "int ml - int w"] m0 by linarith
  have e: "int ?f = ?q" using q0 by simp
  have "int (?f * h) = int h * int ?f" by simp
  also have "\<dots> = int h * ?q" by (simp only: e)
  finally have E: "int (?f * h) = int h * ?q" .
  have "int (?f * h) \<le> int ml - int w" unfolding E by (rule L)
  then show ?thesis using wle by linarith
qed

lemma view_fits:
  fixes n0 n1 h w ml d :: nat
  assumes n0: "n0 \<noteq> 0" and w: "w \<noteq> 0" and d: "d \<noteq> 0" and n1: "n1 \<noteq> 0"
    and fit: "(n1 - 1) * h + w \<le> ml"
  shows "1 + (n0 - 1) * (ml * d) + (n1 - 1) * (h * d) + (w - 1) * d + (d - 1) * 1 \<le> n0 * (ml * d)"
proof -
  have a0: "((n1 - 1) * h + w) * d \<le> ml * d" using fit by (rule mult_le_mono1)
  have wd: "w * d = (w - 1) * d + d" using w by (cases w) simp_all
  have "((n1 - 1) * h + w) * d = (n1 - 1) * (h * d) + w * d"
    by (simp add: algebra_simps)
  also have "\<dots> = (n1 - 1) * (h * d) + ((w - 1) * d + d)" by (simp only: wd[symmetric])
  finally have E: "((n1 - 1) * h + w) * d = (n1 - 1) * (h * d) + ((w - 1) * d + d)" .
  have a: "(n1 - 1) * (h * d) + ((w - 1) * d + d) \<le> ml * d" using a0 unfolding E .
  have b: "n0 * (ml * d) = (n0 - 1) * (ml * d) + ml * d"
    using n0 by (cases n0) simp_all
  have c: "1 + (d - 1) * 1 = d" using d by simp
  show ?thesis using a b c by linarith
qed

lemma mode_each_total:
  assumes "\<forall>v\<in>set vs. v \<noteq> []"
  shows "\<exists>ms. mode_each vs = Inr ms \<and> length ms = length vs"
  using assms
proof (induction vs)
  case Nil
  then show ?case by simp
next
  case (Cons v vs)
  then obtain ms where ms: "mode_each vs = Inr ms" "length ms = length vs" by auto
  from Cons.prems have "v \<noteq> []" by simp
  then obtain m where "mode v = Some m" by (auto simp: mode_def)
  with ms show ?case by simp
qed

lemma mode_batch_total:
  assumes "\<forall>item\<in>set items. \<forall>v\<in>set item. v \<noteq> []"
  shows "\<exists>out. mode_batch items = Inr out \<and> length out = length items \<and>
           (\<forall>i < length items. length (out ! i) = length (items ! i))"
  using assms
proof (induction items)
  case Nil
  then show ?case by simp
next
  case (Cons item items)
  then obtain out where out: "mode_batch items = Inr out" "length out = length items"
    "\<forall>i < length items. length (out ! i) = length (items ! i)" by auto
  from Cons.prems mode_each_total[of item]
  obtain ms where ms: "mode_each item = Inr ms" "length ms = length item" by auto
  have "\<forall>i < length (item # items). length ((ms # out) ! i) = length ((item # items) ! i)"
    using out(3) ms(2) by (auto simp: nth_Cons split: nat.splits)
  with out ms show ?case by simp
qed

lemma aggregate_centered:
  assumes wf: "wf_tensor3 input" and c: "center self" and h: "hop_length self \<noteq> 0"
    and d: "size2 input \<noteq> 0"
  shows "\<exists>out. aggregate self input = Inr out \<and> length out = size0 input \<and>
           (\<forall>row\<in>set out. int (length row) =
              (int (size1 input + 2 * (win_length self div 2)) - int (win_length self))
                div int (hop_length self) + 1)"
proof -
  define ml where "ml = size1 input + 2 * (win_length self div 2)"
  define nf where "nf = (int ml - int (win_length self)) div int (hop_length self) + 1"
  define storage where "storage = concat (map concat (padded_input self input))"
  define view where "view = map (\<lambda>b. map (\<lambda>f. map (\<lambda>w. map (\<lambda>d.
        storage ! (b * (ml * size2 input) + f * (hop_length self * size2 input) + w * size2 input + d * 1))
      [0..<size2 input]) [0..<win_length self]) [0..<nat nf]) [0..<size0 input]"
  define sums where "sums = sum_dim2 (size2 input) view"
  have nf0: "0 \<le> nf" unfolding nf_def ml_def by (rule nframe_nonneg[OF h])
  have len: "length storage = size0 input * (ml * size2 input)"
    unfolding storage_def ml_def by (rule storage_length[OF wf])
  have fits: "\<not> (size0 input * nat nf * win_length self * size2 input \<noteq> 0 \<and>
      length storage < 1 + (size0 input - 1) * (ml * size2 input)
        + (nat nf - 1) * (hop_length self * size2 input)
        + (win_length self - 1) * size2 input + (size2 input - 1) * 1)"
  proof
    assume a: "size0 input * nat nf * win_length self * size2 input \<noteq> 0 \<and>
      length storage < 1 + (size0 input - 1) * (ml * size2 input)
        + (nat nf - 1) * (hop_length self * size2 input)
        + (win_length self - 1) * size2 input + (size2 input - 1) * 1"
    then have nz: "size0 input \<noteq> 0" "nat nf \<noteq> 0" "win_length self \<noteq> 0" by auto
    have "(nat nf - 1) * hop_length self + win_length self \<le> ml"
      using frames_fit[OF h, of ml "win_length self"] nz(2) unfolding nf_def by simp
    from view_fits[OF nz(1) nz(3) d nz(2) this] a len show False by simp
  qed
  have as: "as_strided storage (size0 input, nf, win_length self, size2 input)
              (ml * size2 input, hop_length self * size2 input, size2 input, 1) = Inr view"
    using nf0 fits unfolding as_strided_def view_def by simp
  have ne: "\<forall>item\<in>set sums. \<forall>v\<in>set item. v \<noteq> []"
    using d by (auto simp: sums_def sum_dim2_def view_def)
  from mode_batch_total[OF ne] obtain out where out: "mode_batch sums = Inr out"
    "length out = length sums" "\<forall>i < length sums. length (out ! i) = length (sums ! i)" by blast
  have ls: "length sums = size0 input" by (simp add: sums_def sum_dim2_def view_def)
  have lr: "length (sums ! i) = nat nf" if "i < size0 input" for i
    using that by (simp add: sums_def sum_dim2_def view_def)
  have agg: "aggregate self input = Inr out"
  proof -
    have "aggregate self input
        = (case as_strided storage (size0 input, nf, win_length self, size2 input)
                  (ml * size2 input, hop_length self * size2 input, size2 input, 1) of
             Inl e \<Rightarrow> Inl e
           | Inr view \<Rightarrow> mode_dim_last (size2 input) (sum_dim2 (size2 input) view))"
      unfolding aggregate_def Let_def storage_def nf_def ml_def using c h by simp
    also have "\<dots> = mode_dim_last (size2 input) sums" unfolding as sums_def by simp
    also have "\<dots> = Inr out" using d out(1) by (simp add: mode_dim_last_def)
    finally show ?thesis .
  qed
  have rows: "int (length row) = nf" if "row \<in> set out" for row
  proof -
    from that obtain i where "i < length out" "row = out ! i" by (auto simp: in_set_conv_nth)
    then show ?thesis using out(2,3) ls lr nf0 by simp
  qed
  show ?thesis
  proof (intro exI[of _ out] conjI ballI)
    show "aggregate self input = Inr out" by (rule agg)
    show "length out = size0 input" using out(2) ls by simp
    fix row assume "row \<in> set out"
    from rows[OF this]
    show "int (length row) =
        (int (size1 input + 2 * (win_length self div 2)) - int (win_length self))
          div int (hop_length self) + 1"
      unfolding nf_def ml_def .
  qed
qed

lemma process_lengths_Some:
  assumes "hop_length self \<noteq> 0" "length input_lengths = length output"
  shows "\<exists>masked. process_lengths self output (Some input_lengths)
            = Inr (masked, Some (spec_output_lengths self input_lengths)) \<and>
          length masked = length output \<and>
          (\<forall>i < length output. length (masked ! i) = length (output ! i) \<and>
             (\<forall>f < length (output ! i).
                masked ! i ! f = (if spec_output_lengths self input_lengths ! i \<le> int f then 0
                                  else output ! i ! f)))"
proof -
  define olens where "olens = spec_output_lengths self input_lengths"
  have ol: "map (\<lambda>l. (l - int (win_length self)) div int (hop_length self) + 1)
              (if center self then map (\<lambda>l. l + 2 * int (win_length self div 2)) input_lengths
               else input_lengths) = olens"
    by (simp add: olens_def spec_output_lengths_def comp_def)
  have pl: "process_lengths self output (Some input_lengths)
      = (case make_pad_mask olens output of
           Inl e \<Rightarrow> Inl e
         | Inr pad_mask \<Rightarrow> Inr (masked_fill output pad_mask 0, Some olens))"
    unfolding process_lengths_def option.case Let_def ol using assms(1) by simp
  have l: "length olens = length output"
    using assms(2) by (simp add: olens_def spec_output_lengths_def)
  from masked_rows[OF l] obtain out where out:
    "make_pad_mask olens output
       = Inr (map (\<lambda>(len, row). map (\<lambda>f. len \<le> int f) [0..<length row]) (zip olens output))"
    "out = masked_fill output
       (map (\<lambda>(len, row). map (\<lambda>f. len \<le> int f) [0..<length row]) (zip olens output)) 0"
    "length out = length output"
    "\<forall>i < length output. length (out ! i) = length (output ! i) \<and>
       (\<forall>f < length (output ! i). out ! i ! f = (if olens ! i \<le> int f then 0 else output ! i ! f))"
    by blast
  have "process_lengths self output (Some input_lengths) = Inr (out, Some olens)"
    unfolding pl out(1) out(2) by simp
  with out(3,4) show ?thesis unfolding olens_def by blast
qed

subsection \<open>The padded buffer\<close>

text \<open>
  Claim C9. For a well-shaped input, every batch item of the buffer that Step 1 builds has
  the padded length \<open>size1 + 2 * pad\<close> with \<open>pad = win_length div 2\<close>; its first \<open>pad\<close>
  rows equal its rows \<open>pad..2*pad\<close>, and its last \<open>pad\<close> rows equal the \<open>pad\<close> rows
  before them.
\<close>

theorem padding_reflection:
  assumes "wf_tensor3 input"
  shows "\<forall>padded \<in> set (padded_input self input).
           length padded = size1 input + 2 * (win_length self div 2) \<and>
           slice padded 0 (win_length self div 2)
             = slice padded (win_length self div 2) (2 * (win_length self div 2)) \<and>
           slice padded (size1 input + 2 * (win_length self div 2) - win_length self div 2)
               (size1 input + 2 * (win_length self div 2))
             = slice padded (size1 input + 2 * (win_length self div 2) - 2 * (win_length self div 2))
                 (size1 input + 2 * (win_length self div 2) - win_length self div 2)"
  using padded_input_items[OF assms] by blast

theorem padding_reflection_witness:
  "padded_input \<lparr>fs = 22050, n_fft = 1024, win_length = 4, hop_length = 2, window = ''hann'',
                  center = True, ftype = ''frame''\<rparr>
     \<lparr>size0 = 1, size1 = 5, size2 = 1, elems = [[[1], [2], [3], [4], [5]]]\<rparr>
     = [[[1], [2], [1], [2], [3], [4], [5], [4], [5]]] \<and>
   slice [[1], [2], [1], [2], [3], [4], [5], [4], [5 :: int]] 0 2
     = slice [[1], [2], [1], [2], [3], [4], [5], [4], [5]] 2 4 \<and>
   slice [[1], [2], [1], [2], [3], [4], [5], [4], [5 :: int]] 7 9
     = slice [[1], [2], [1], [2], [3], [4], [5], [4], [5]] 5 7"
proof -
  let ?self = "\<lparr>fs = 22050, n_fft = 1024, win_length = 4, hop_length = 2, window = ''hann'',
                  center = True, ftype = ''frame''\<rparr>"
  let ?input = "\<lparr>size0 = 1, size1 = 5, size2 = 1, elems = [[[1], [2], [3], [4], [5]]]\<rparr>"
  have wf: "wf_tensor3 ?input" by (simp add: wf_tensor3_def)
  have p: "padded_input ?self ?input = [[[1], [2], [1], [2], [3], [4], [5], [4], [5]]]"
    by (simp add: padded_input_def center_padding_def assign_slice_def slice_def Let_def)
  from padding_reflection[OF wf, of ?self] show ?thesis unfolding p by simp
qed

subsection \<open>Output lengths and masking\<close>

lemma forward_centered_frames:
  assumes "wf_tensor3 input" "center self" "hop_length self \<noteq> 0" "size2 input \<noteq> 0"
  shows "\<exists>out. forward self input None = Inr (out, None) \<and> length out = size0 input \<and>
           (\<forall>row\<in>set out. int (length row) =
              (int (size1 input + 2 * (win_length self div 2)) - int (win_length self))
                div int (hop_length self) + 1)"
  using aggregate_centered[OF assms] by (auto simp: forward_def process_lengths_def)

text \<open>
  Step 4 on any output and any configuration with a hop of at least 1: with
  \<open>input_lengths\<close> the returned lengths are the specification's
  (\<open>spec_output_lengths\<close>, for both values of \<open>center\<close>), the output keeps its shape,
  every frame at or beyond its item's output length is 0 and every frame before it is
  unchanged; without \<open>input_lengths\<close> the output is returned as it is, with no length
  vector. For \<open>forward\<close> as a whole, on a well-shaped input with centring: it returns, with
  those lengths and with zero frames beyond them, and without \<open>input_lengths\<close> it returns
  no length vector.
\<close>

theorem output_lengths_and_masking:
  "(hop_length self \<noteq> 0 \<and> length input_lengths = length output \<longrightarrow>
      (\<exists>masked. process_lengths self output (Some input_lengths)
            = Inr (masked, Some (spec_output_lengths self input_lengths)) \<and>
          length masked = length output \<and>
          (\<forall>i < length output. length (masked ! i) = length (output ! i) \<and>
             (\<forall>f < length (output ! i).
                masked ! i ! f = (if spec_output_lengths self input_lengths ! i \<le> int f then 0
                                  else output ! i ! f))))) \<and>
   process_lengths self output None = Inr (output, None) \<and>
   (wf_tensor3 input \<and> center self \<and> hop_length self \<noteq> 0 \<and> size2 input \<noteq> 0 \<and>
    length input_lengths = size0 input \<longrightarrow>
      (\<exists>out. forward self input (Some input_lengths)
            = Inr (out, Some (spec_output_lengths self input_lengths)) \<and>
          (\<forall>i < length out. \<forall>f < length (out ! i).
             spec_output_lengths self input_lengths ! i \<le> int f \<longrightarrow> out ! i ! f = 0)) \<and>
      (\<exists>out. forward self input None = Inr (out, None)))"
proof (intro conjI impI)
  assume "hop_length self \<noteq> 0 \<and> length input_lengths = length output"
  then show "\<exists>masked. process_lengths self output (Some input_lengths)
            = Inr (masked, Some (spec_output_lengths self input_lengths)) \<and>
          length masked = length output \<and>
          (\<forall>i < length output. length (masked ! i) = length (output ! i) \<and>
             (\<forall>f < length (output ! i).
                masked ! i ! f = (if spec_output_lengths self input_lengths ! i \<le> int f then 0
                                  else output ! i ! f)))"
    using process_lengths_Some[of self input_lengths "output"] by blast
next
  show "process_lengths self output None = Inr (output, None)"
    by (simp add: process_lengths_def)
next
  assume a: "wf_tensor3 input \<and> center self \<and> hop_length self \<noteq> 0 \<and> size2 input \<noteq> 0 \<and>
    length input_lengths = size0 input"
  then obtain agg where agg: "aggregate self input = Inr agg" "length agg = size0 input"
    using aggregate_centered[of input self] by blast
  from a agg(2) have l: "length input_lengths = length agg" by simp
  from a have h: "hop_length self \<noteq> 0" by simp
  from process_lengths_Some[OF h l] obtain masked where m:
    "process_lengths self agg (Some input_lengths)
       = Inr (masked, Some (spec_output_lengths self input_lengths))"
    "length masked = length agg"
    "\<forall>i < length agg. length (masked ! i) = length (agg ! i) \<and>
       (\<forall>f < length (agg ! i).
          masked ! i ! f = (if spec_output_lengths self input_lengths ! i \<le> int f then 0
                            else agg ! i ! f))"
    by blast
  have fw: "forward self input (Some input_lengths)
      = Inr (masked, Some (spec_output_lengths self input_lengths))"
    using agg(1) m(1) by (simp add: forward_def)
  have z: "\<forall>i < length masked. \<forall>f < length (masked ! i).
             spec_output_lengths self input_lengths ! i \<le> int f \<longrightarrow> masked ! i ! f = 0"
    using m(2,3) by auto
  from fw z show "\<exists>out. forward self input (Some input_lengths)
            = Inr (out, Some (spec_output_lengths self input_lengths)) \<and>
          (\<forall>i < length out. \<forall>f < length (out ! i).
             spec_output_lengths self input_lengths ! i \<le> int f \<longrightarrow> out ! i ! f = 0)"
    by blast
  show "\<exists>out. forward self input None = Inr (out, None)"
    using agg(1) by (simp add: forward_def process_lengths_def)
qed

theorem output_lengths_and_masking_witness:
  "forward \<lparr>fs = 22050, n_fft = 1024, win_length = 5, hop_length = 1, window = ''hann'',
             center = True, ftype = ''frame''\<rparr>
     \<lparr>size0 = 1, size1 = 5, size2 = 1, elems = [[[3], [3], [3], [5], [5]]]\<rparr> (Some [3])
     = Inr ([[15, 17, 19, 0, 0]], Some [3]) \<and>
   process_lengths \<lparr>fs = 22050, n_fft = 1024, win_length = 5, hop_length = 1, window = ''hann'',
             center = False, ftype = ''frame''\<rparr> [[15, 17, 19, 21, 23]] (Some [7])
     = Inr ([[15, 17, 19, 0, 0]], Some [3]) \<and>
   process_lengths \<lparr>fs = 22050, n_fft = 1024, win_length = 5, hop_length = 1, window = ''hann'',
             center = False, ftype = ''frame''\<rparr> [[15, 17, 19, 21, 23]] None
     = Inr ([[15, 17, 19, 21, 23]], None)"
proof -
  let ?c = "\<lparr>fs = 22050, n_fft = 1024, win_length = 5, hop_length = 1, window = ''hann'',
             center = True, ftype = ''frame''\<rparr>"
  let ?n = "\<lparr>fs = 22050, n_fft = 1024, win_length = 5, hop_length = 1, window = ''hann'',
             center = False, ftype = ''frame''\<rparr>"
  let ?input = "\<lparr>size0 = 1, size1 = 5, size2 = 1, elems = [[[3], [3], [3], [5], [5]]]\<rparr>"
  have u: "[0..<5] = [0, 1, 2, 3, 4]" by (simp add: upt_rec)
  have wf: "wf_tensor3 ?input" by (simp add: wf_tensor3_def)
  have agg: "aggregate ?c ?input = Inr [[15, 17, 19, 21, 23]]"
    by (simp add: aggregate_def padded_input_def center_padding_def assign_slice_def slice_def
        as_strided_def sum_dim2_def mode_dim_last_def mode_single u Let_def)
  have sc: "spec_output_lengths ?c [3] = [3]" by (simp add: spec_output_lengths_def)
  have sn: "spec_output_lengths ?n [7] = [3]" by (simp add: spec_output_lengths_def)
  note T1 = output_lengths_and_masking[of ?c "[3]" "[[15, 17, 19, 21, 23]]" ?input]
  note T2 = output_lengths_and_masking[of ?n "[7]" "[[15, 17, 19, 21, 23]]" ?input]
  from T1 obtain m1 where m1:
    "process_lengths ?c [[15, 17, 19, 21, 23]] (Some [3]) = Inr (m1, Some (spec_output_lengths ?c [3]))"
    "length m1 = length [[15, 17, 19, 21, 23 :: int]]"
    "\<forall>i < length [[15, 17, 19, 21, 23 :: int]]. length (m1 ! i) = length ([[15, 17, 19, 21, 23 :: int]] ! i) \<and>
       (\<forall>f < length ([[15, 17, 19, 21, 23 :: int]] ! i).
          m1 ! i ! f = (if spec_output_lengths ?c [3] ! i \<le> int f then 0
                        else [[15, 17, 19, 21, 23]] ! i ! f))"
    by auto
  have m1v: "m1 = [[15, 17, 19, 0, 0]]"
  proof -
    from m1(2) obtain r where r: "m1 = [r]" by (cases m1) auto
    from m1(3) have lr: "length r = 5" and el: "\<forall>f < 5. r ! f = (if 3 \<le> int f then 0 else [15, 17, 19, 21, 23] ! f)"
      unfolding r sc by auto
    have "r = [15, 17, 19, 0, 0]"
      by (rule nth_equalityI) (use lr el in \<open>auto simp: less_Suc_eq numeral_nat nth_Cons'\<close>)
    then show ?thesis using r by simp
  qed
  have f1: "forward ?c ?input (Some [3]) = Inr ([[15, 17, 19, 0, 0]], Some [3])"
    using agg m1(1) unfolding m1v sc by (simp add: forward_def)
  from T2 obtain m2 where m2:
    "process_lengths ?n [[15, 17, 19, 21, 23]] (Some [7]) = Inr (m2, Some (spec_output_lengths ?n [7]))"
    "length m2 = length [[15, 17, 19, 21, 23 :: int]]"
    "\<forall>i < length [[15, 17, 19, 21, 23 :: int]]. length (m2 ! i) = length ([[15, 17, 19, 21, 23 :: int]] ! i) \<and>
       (\<forall>f < length ([[15, 17, 19, 21, 23 :: int]] ! i).
          m2 ! i ! f = (if spec_output_lengths ?n [7] ! i \<le> int f then 0
                        else [[15, 17, 19, 21, 23]] ! i ! f))"
    by auto
  have m2v: "m2 = [[15, 17, 19, 0, 0]]"
  proof -
    from m2(2) obtain r where r: "m2 = [r]" by (cases m2) auto
    from m2(3) have lr: "length r = 5" and el: "\<forall>f < 5. r ! f = (if 3 \<le> int f then 0 else [15, 17, 19, 21, 23] ! f)"
      unfolding r sn by auto
    have "r = [15, 17, 19, 0, 0]"
      by (rule nth_equalityI) (use lr el in \<open>auto simp: less_Suc_eq numeral_nat nth_Cons'\<close>)
    then show ?thesis using r by simp
  qed
  have f2: "process_lengths ?n [[15, 17, 19, 21, 23]] (Some [7]) = Inr ([[15, 17, 19, 0, 0]], Some [3])"
    using m2(1) unfolding m2v sn .
  from T2 have f3: "process_lengths ?n [[15, 17, 19, 21, 23]] None = Inr ([[15, 17, 19, 21, 23]], None)"
    by blast
  from f1 f2 f3 show ?thesis by blast
qed

subsection \<open>The frame count and the aggregation\<close>

text \<open>
  Claim C2, at the failing inputs. Without centring \<open>forward\<close> raises
  \<open>UnboundLocalError\<close> on every input: the frame count is assigned under
  \<open>if self.center:\<close> only. With centring the frame count is the claimed one (lemma
  \<open>forward_centered_frames\<close>).
\<close>

theorem forward_without_center_raises:
  "forward (self\<lparr>center := False\<rparr>) input input_lengths = Inl UnboundLocalError"
  by (simp add: forward_def aggregate_def Let_def)

theorem forward_without_center_raises_witness:
  "forward \<lparr>fs = 22050, n_fft = 1024, win_length = 512, hop_length = 128, window = ''hann'',
             center = False, ftype = ''frame''\<rparr>
     \<lparr>size0 = 1, size1 = 1024, size2 = 1, elems = [replicate 1024 [0]]\<rparr> None
     = Inl UnboundLocalError"
  using forward_without_center_raises[of
      "\<lparr>fs = 22050, n_fft = 1024, win_length = 512, hop_length = 128, window = ''hann'',
         center = True, ftype = ''frame''\<rparr>"
      "\<lparr>size0 = 1, size1 = 1024, size2 = 1, elems = [replicate 1024 [0]]\<rparr>" None]
  by simp

text \<open>
  Claim C1, at the failing input. The item \<open>[3,3,3,5,5]\<close> with a window of 5 and a hop
  of 1 is padded to \<open>[3,3,3,3,3,5,5,5,5]\<close>; frame 2 is the window \<open>[3,3,3,5,5]\<close>.
  \<open>sum(dim=2)\<close> adds up the window, and the mode is taken over the one remaining label
  entry: frame 2 is 19, not 3.
\<close>

theorem forward_sums_window:
  "padded_input \<lparr>fs = 22050, n_fft = 1024, win_length = 5, hop_length = 1, window = ''hann'',
                  center = True, ftype = ''frame''\<rparr>
     \<lparr>size0 = 1, size1 = 5, size2 = 1, elems = [[[3], [3], [3], [5], [5]]]\<rparr>
     = [[[3], [3], [3], [3], [3], [5], [5], [5], [5]]] \<and>
   forward \<lparr>fs = 22050, n_fft = 1024, win_length = 5, hop_length = 1, window = ''hann'',
             center = True, ftype = ''frame''\<rparr>
     \<lparr>size0 = 1, size1 = 5, size2 = 1, elems = [[[3], [3], [3], [5], [5]]]\<rparr> None
     = Inr ([[15, 17, 19, 21, 23]], None)"
proof -
  have u: "[0..<5] = [0, 1, 2, 3, 4]" by (simp add: upt_rec)
  show ?thesis
    by (simp add: forward_def process_lengths_def aggregate_def padded_input_def
        center_padding_def assign_slice_def slice_def as_strided_def sum_dim2_def
        mode_dim_last_def mode_single u Let_def)
qed

theorem forward_sums_window_witness:
  "\<exists>out. forward \<lparr>fs = 22050, n_fft = 1024, win_length = 5, hop_length = 1, window = ''hann'',
             center = True, ftype = ''frame''\<rparr>
     \<lparr>size0 = 1, size1 = 5, size2 = 1, elems = [[[3], [3], [3], [5], [5]]]\<rparr> None
     = Inr (out, None) \<and> out ! 0 ! 2 = 19 \<and> mode [3, 3, 3, 5, 5] = Some 3"
proof -
  have "mode [3, 3, 3, 5, 5] = Some 3" by (simp add: mode_def most_frequent_def)
  with forward_sums_window show ?thesis by simp
qed

subsection \<open>The modes that get\_segments returns\<close>

lemma mode_Some_nonempty: "mode xs = Some m \<Longrightarrow> xs \<noteq> []"
  by (auto simp: mode_def split: if_splits)

lemma seg_loop_modes:
  "seg_loop d s t seq is (a, b, c) = Inr (a', b', c') \<Longrightarrow>
     map Some a' = map Some a @ map (\<lambda>i. mode (slice d (seq ! i) (seq ! (i + 1)))) is \<and>
     map Some b' = map Some b @ map (\<lambda>i. mode (slice s (seq ! i) (seq ! (i + 1)))) is \<and>
     map Some c' = map Some c @ map (\<lambda>i. mode (slice t (seq ! i) (seq ! (i + 1)))) is"
proof (induction "is" arbitrary: a b c)
  case Nil
  then show ?case by simp
next
  case (Cons i "is")
  from Cons.prems obtain md ms mt where m:
    "mode (slice d (seq ! i) (seq ! (i + 1))) = Some md"
    "mode (slice s (seq ! i) (seq ! (i + 1))) = Some ms"
    "mode (slice t (seq ! i) (seq ! (i + 1))) = Some mt"
    and rest: "seg_loop d s t seq is (a @ [md], b @ [ms], c @ [mt]) = Inr (a', b', c')"
    by (auto simp: Let_def split: option.splits)
  from Cons.IH[OF rest] m show ?case by simp
qed

text \<open>
  Every value \<open>get_segments\<close> returns is the mode of its stream on its segment: the
  \<open>i\<close>-th duration, score and tempo are the modes of the three streams on
  \<open>[seq[i], seq[i+1])\<close>, so each is the lowest of the most frequent values there.
\<close>

lemma get_segments_modes:
  assumes "get_segments d dl s sl t n = Inr (sd, n1, ss, n2, st, n3)"
  shows "\<exists>seq. boundaries d dl s sl = Inr seq \<and> n1 = length seq - 1 \<and>
           length sd = n1 \<and> length ss = n1 \<and> length st = n1 \<and>
           (\<forall>i < n1. mode (slice d (seq ! i) (seq ! (i + 1))) = Some (sd ! i) \<and>
                     mode (slice s (seq ! i) (seq ! (i + 1))) = Some (ss ! i) \<and>
                     mode (slice t (seq ! i) (seq ! (i + 1))) = Some (st ! i))"
proof -
  from assms obtain seq where seq: "boundaries d dl s sl = Inr seq"
    by (auto simp: get_segments_def split: sum.splits)
  from assms seq have l: "seg_loop d s t seq [0..<length seq - 1] ([], [], []) = Inr (sd, ss, st)"
    and n: "n1 = length seq - 1"
    by (auto simp: get_segments_def Let_def split: sum.splits)
  from seg_loop_modes[OF l] have m:
    "map Some sd = map (\<lambda>i. mode (slice d (seq ! i) (seq ! (i + 1)))) [0..<length seq - 1]"
    "map Some ss = map (\<lambda>i. mode (slice s (seq ! i) (seq ! (i + 1)))) [0..<length seq - 1]"
    "map Some st = map (\<lambda>i. mode (slice t (seq ! i) (seq ! (i + 1)))) [0..<length seq - 1]"
    by simp_all
  have len: "length sd = n1" "length ss = n1" "length st = n1"
    using arg_cong[OF m(1), of length] arg_cong[OF m(2), of length] arg_cong[OF m(3), of length] n
    by simp_all
  have el: "mode (slice d (seq ! i) (seq ! (i + 1))) = Some (sd ! i) \<and>
            mode (slice s (seq ! i) (seq ! (i + 1))) = Some (ss ! i) \<and>
            mode (slice t (seq ! i) (seq ! (i + 1))) = Some (st ! i)" if i: "i < n1" for i
  proof -
    have "map Some sd ! i = Some (sd ! i)" "map Some ss ! i = Some (ss ! i)"
      "map Some st ! i = Some (st ! i)" using i len by simp_all
    moreover have "map (\<lambda>i. mode (slice d (seq ! i) (seq ! (i + 1)))) [0..<length seq - 1] ! i
        = mode (slice d (seq ! i) (seq ! (i + 1)))"
      "map (\<lambda>i. mode (slice s (seq ! i) (seq ! (i + 1)))) [0..<length seq - 1] ! i
        = mode (slice s (seq ! i) (seq ! (i + 1)))"
      "map (\<lambda>i. mode (slice t (seq ! i) (seq ! (i + 1)))) [0..<length seq - 1] ! i
        = mode (slice t (seq ! i) (seq ! (i + 1)))"
      using i n by simp_all
    ultimately show ?thesis using m by metis
  qed
  from seq n len el show ?thesis by blast
qed

subsection \<open>The claims that the two defects of forward break\<close>

text \<open>
  Claim C6, at the failing inputs. With \<open>input_lengths\<close> given and without centring,
  \<open>forward\<close> raises \<open>UnboundLocalError\<close> on every input and returns no output lengths:
  line 101 reads \<open>nframe\<close>, which line 97 assigns under \<open>if self.center:\<close> only, before
  Step 4 is reached. Step 4 by itself computes the claimed lengths for both values of
  \<open>center\<close>, and \<open>forward\<close> returns them under centring (\<open>output_lengths_and_masking\<close>).
\<close>

theorem forward_lengths_without_center_raise:
  "forward (self\<lparr>center := False\<rparr>) input (Some input_lengths) = Inl UnboundLocalError"
  by (simp add: forward_def aggregate_def Let_def)

theorem forward_lengths_without_center_raise_witness:
  "forward \<lparr>fs = 22050, n_fft = 1024, win_length = 5, hop_length = 1, window = ''hann'',
             center = False, ftype = ''frame''\<rparr>
     \<lparr>size0 = 1, size1 = 5, size2 = 1, elems = [[[3], [3], [3], [5], [5]]]\<rparr> (Some [5])
     = Inl UnboundLocalError"
  using forward_lengths_without_center_raise[of
      "\<lparr>fs = 22050, n_fft = 1024, win_length = 5, hop_length = 1, window = ''hann'',
         center = True, ftype = ''frame''\<rparr>"
      "\<lparr>size0 = 1, size1 = 5, size2 = 1, elems = [[[3], [3], [3], [5], [5]]]\<rparr>" "[5]"]
  by simp



end
